theory Spec2Isabelle
  imports Complex_Main "HOL-Library.Multiset" "HOL-Library.Product_Lexorder"
begin

section \<open>JavaScript values used by the matcher\<close>

text \<open>
  A JavaScript number, idealised: a finite double is an exact real (no rounding, overflow
  or underflow), a zero is \<open>+0\<close>; \<open>NaN\<close> and the two infinities are kept, because the
  matcher produces them on malformed input.
\<close>

datatype jsnum = NaN | NegInf | Fin real | PosInf

text \<open>A spreadsheet cell or form value: absent, a number, or a string.\<close>

datatype jsval = JUndefined | JNum jsnum | JStr string

text \<open>The only exception the engine can raise: calling a method on a value that lacks it.\<close>

datatype exn = TypeError

fun js_lt :: "jsnum \<Rightarrow> jsnum \<Rightarrow> bool" where
  "js_lt (Fin a) (Fin b) = (a < b)"
| "js_lt NegInf (Fin b) = True"
| "js_lt NegInf PosInf = True"
| "js_lt (Fin a) PosInf = True"
| "js_lt _ _ = False"

definition js_gt :: "jsnum \<Rightarrow> jsnum \<Rightarrow> bool" where
  "js_gt x y = js_lt y x"

fun js_sgn :: "jsnum \<Rightarrow> real" where
  "js_sgn NaN = 0"
| "js_sgn NegInf = - 1"
| "js_sgn (Fin a) = sgn a"
| "js_sgn PosInf = 1"

definition inf_of_sign :: "real \<Rightarrow> jsnum" where
  "inf_of_sign s = (if 0 < s then PosInf else if s < 0 then NegInf else NaN)"

fun js_neg :: "jsnum \<Rightarrow> jsnum" where
  "js_neg NaN = NaN"
| "js_neg NegInf = PosInf"
| "js_neg (Fin a) = Fin (- a)"
| "js_neg PosInf = NegInf"

fun js_add :: "jsnum \<Rightarrow> jsnum \<Rightarrow> jsnum" where
  "js_add NaN _ = NaN"
| "js_add _ NaN = NaN"
| "js_add (Fin a) (Fin b) = Fin (a + b)"
| "js_add (Fin a) y = y"
| "js_add x (Fin b) = x"
| "js_add x y = (if x = y then x else NaN)"

definition js_sub :: "jsnum \<Rightarrow> jsnum \<Rightarrow> jsnum" where
  "js_sub x y = js_add x (js_neg y)"

fun js_mul :: "jsnum \<Rightarrow> jsnum \<Rightarrow> jsnum" where
  "js_mul NaN _ = NaN"
| "js_mul _ NaN = NaN"
| "js_mul (Fin a) (Fin b) = Fin (a * b)"
| "js_mul x y = inf_of_sign (js_sgn x * js_sgn y)"

fun js_div :: "jsnum \<Rightarrow> jsnum \<Rightarrow> jsnum" where
  "js_div NaN _ = NaN"
| "js_div _ NaN = NaN"
| "js_div (Fin a) (Fin b) = (if b = 0 then inf_of_sign (sgn a) else Fin (a / b))"
| "js_div (Fin a) y = Fin 0"
| "js_div x (Fin b) = inf_of_sign (js_sgn x * (if b < 0 then - 1 else 1))"
| "js_div x y = NaN"

fun Math_abs :: "jsnum \<Rightarrow> jsnum" where
  "Math_abs NaN = NaN"
| "Math_abs NegInf = PosInf"
| "Math_abs (Fin a) = Fin \<bar>a\<bar>"
| "Math_abs PosInf = PosInf"

text \<open>
  \<open>Math.pow\<close> with a finite exponent (every exponent in the source is a literal): a
  negative base with a non-integer exponent gives \<open>NaN\<close>, a zero base with a negative
  exponent gives \<open>Infinity\<close>.
\<close>

definition Math_pow :: "jsnum \<Rightarrow> real \<Rightarrow> jsnum" where
  "Math_pow b e =
     (if e = 0 then Fin 1
      else case b of
        NaN \<Rightarrow> NaN
      | PosInf \<Rightarrow> (if 0 < e then PosInf else Fin 0)
      | NegInf \<Rightarrow> (if 0 < e then (if e = of_int \<lfloor>e\<rfloor> \<and> odd \<lfloor>e\<rfloor> then NegInf else PosInf)
                   else Fin 0)
      | Fin x \<Rightarrow>
          (if 0 < x then Fin (x powr e)
           else if x = 0 then (if 0 < e then Fin 0 else PosInf)
           else if e = of_int \<lfloor>e\<rfloor> then Fin (x powi \<lfloor>e\<rfloor>)
           else NaN))"

definition isNaN :: "jsnum \<Rightarrow> bool" where
  "isNaN x = (x = NaN)"

text \<open>Truthiness: \<open>!v\<close> holds for \<open>undefined\<close>, the empty string, zero and \<open>NaN\<close>.\<close>

fun falsy :: "jsval \<Rightarrow> bool" where
  "falsy JUndefined = True"
| "falsy (JStr s) = (s = [])"
| "falsy (JNum x) = (x = NaN \<or> x = Fin 0)"

text \<open>\<open>String.prototype.toLowerCase\<close> on ASCII letters; other bytes are left as they are.\<close>

definition toLowerChar :: "char \<Rightarrow> char" where
  "toLowerChar c =
     (case map_of (zip ''ABCDEFGHIJKLMNOPQRSTUVWXYZ'' ''abcdefghijklmnopqrstuvwxyz'') c of
        Some l \<Rightarrow> l
      | None \<Rightarrow> c)"

text \<open>\<open>v.toLowerCase()\<close>: only a string has the method.\<close>

fun toLowerCase :: "jsval \<Rightarrow> exn + string" where
  "toLowerCase (JStr s) = Inr (map toLowerChar s)"
| "toLowerCase _ = Inl TypeError"

section \<open>Predicted heart mass\<close>

definition calculatePHM :: "jsval \<Rightarrow> jsnum \<Rightarrow> jsnum \<Rightarrow> jsnum \<Rightarrow> exn + jsnum" where
  "calculatePHM gender age height weight =
     (let heightInM = (if js_gt height (Fin 3) then js_div height (Fin 100) else height) in
      case toLowerCase gender of
        Inl e \<Rightarrow> Inl e
      | Inr g \<Rightarrow>
          (let lvmCoefficient = (if g = ''female'' then Fin 6.82 else Fin 8.25);
               lvm = js_mul (js_mul lvmCoefficient (Math_pow heightInM 0.54))
                            (Math_pow weight 0.61);
               rvmCoefficient = (if g = ''female'' then Fin 10.59 else Fin 11.25);
               rvm = js_mul (js_mul (js_mul rvmCoefficient (Math_pow age (- 0.32)))
                                    (Math_pow heightInM 1.135))
                            (Math_pow weight 0.315)
           in Inr (js_add rvm lvm)))"

definition calculatePHMRatio :: "jsnum \<Rightarrow> jsnum \<Rightarrow> jsnum" where
  "calculatePHMRatio donorPHM recipientPHM = js_div donorPHM recipientPHM"

section \<open>Classification of the ratio\<close>

text \<open>
  The seven category strings of the source, \<open>'U3 - Severely Undersized'\<close> to
  \<open>'O3 - Severely Oversized'\<close>, and the two risk strings \<open>'High Risk'\<close> and
  \<open>'Acceptable'\<close>.
\<close>

datatype category = U3 | U2 | U1 | R | O1 | O2 | O3

datatype risk = HighRisk | Acceptable

definition determineMatchCategory :: "jsnum \<Rightarrow> category" where
  "determineMatchCategory phmRatio =
     (if js_lt phmRatio (Fin 0.863) then U3
      else if js_lt phmRatio (Fin 0.929) then U2
      else if js_lt phmRatio (Fin 0.983) then U1
      else if js_lt phmRatio (Fin 1.039) then R
      else if js_lt phmRatio (Fin 1.111) then O1
      else if js_lt phmRatio (Fin 1.221) then O2
      else O3)"

definition determineRiskLevel :: "jsnum \<Rightarrow> risk" where
  "determineRiskLevel phmRatio = (if js_lt phmRatio (Fin 0.86) then HighRisk else Acceptable)"

section \<open>Blood types\<close>

definition bloodTypes :: "string list" where
  "bloodTypes = [''A+'', ''A-'', ''B+'', ''B-'', ''AB+'', ''AB-'', ''O+'', ''O-'']"

text \<open>The chart: recipient type, then the donor types it can receive from.\<close>

definition bloodTypeCompatibility :: "(string \<times> string list) list" where
  "bloodTypeCompatibility =
     [(''A+'', [''A+'', ''A-'', ''O+'', ''O-'']),
      (''A-'', [''A-'', ''O-'']),
      (''B+'', [''B+'', ''B-'', ''O+'', ''O-'']),
      (''B-'', [''B-'', ''O-'']),
      (''AB+'', [''A+'', ''A-'', ''B+'', ''B-'', ''AB+'', ''AB-'', ''O+'', ''O-'']),
      (''AB-'', [''A-'', ''B-'', ''AB-'', ''O-'']),
      (''O+'', [''O+'', ''O-'']),
      (''O-'', [''O-''])]"

text \<open>
  The chart is an object literal, so a key it does not own is looked up in
  \<open>Object.prototype\<close>: these names yield a function or an object there, none of which
  has an \<open>includes\<close> method.
\<close>

definition objectPrototypeKeys :: "string list" where
  "objectPrototypeKeys =
     [''constructor'', ''hasOwnProperty'', ''isPrototypeOf'', ''propertyIsEnumerable'',
      ''toLocaleString'', ''toString'', ''valueOf'', ''__proto__'',
      ''__defineGetter__'', ''__defineSetter__'', ''__lookupGetter__'', ''__lookupSetter__'']"

datatype 'a property = Own 'a | Inherited | Missing

text \<open>
  \<open>obj[key]\<close>. A number used as a key is its decimal string, which is neither a chart
  key nor a name of \<open>Object.prototype\<close>.
\<close>

fun getProp :: "(string \<times> 'a) list \<Rightarrow> jsval \<Rightarrow> 'a property" where
  "getProp obj (JStr k) =
     (case map_of obj k of
        Some v \<Rightarrow> Own v
      | None \<Rightarrow> (if k \<in> set objectPrototypeKeys then Inherited else Missing))"
| "getProp obj _ = Missing"

text \<open>\<open>list.includes(v)\<close> on a list of strings.\<close>

fun Array_includes :: "string list \<Rightarrow> jsval \<Rightarrow> bool" where
  "Array_includes l (JStr s) = (s \<in> set l)"
| "Array_includes l _ = False"

definition isBloodTypeCompatible :: "jsval \<Rightarrow> jsval \<Rightarrow> exn + bool" where
  "isBloodTypeCompatible donorBloodType recipientBloodType =
     (if falsy donorBloodType \<or> falsy recipientBloodType then Inr False
      else case getProp bloodTypeCompatibility recipientBloodType of
        Missing \<Rightarrow> Inr False
      | Inherited \<Rightarrow> Inl TypeError
      | Own l \<Rightarrow> Inr (Array_includes l donorBloodType))"

section \<open>parseFloat\<close>

text \<open>
  \<open>parseFloat(v)\<close> converts \<open>v\<close> to a string, skips leading (ASCII) white space and
  reads the longest prefix that is a decimal literal: an optional sign, then \<open>Infinity\<close>
  or digits with an optional fraction and an optional exponent. A number converts to a
  string that reads back as the same number; \<open>undefined\<close> reads as \<open>NaN\<close>. As
  everywhere here a literal is read as the exact real it denotes: a literal beyond the
  range of a double, which the engine reads as \<open>Infinity\<close> or 0, and white space outside
  ASCII are not modelled.
\<close>

definition isDigit :: "char \<Rightarrow> bool" where
  "isDigit c = (c \<in> set ''0123456789'')"

definition isWhiteSpace :: "char \<Rightarrow> bool" where
  "isWhiteSpace c = ((of_char c :: nat) \<in> {9, 10, 11, 12, 13, 32})"

definition digitsVal :: "string \<Rightarrow> nat" where
  "digitsVal ds = foldl (\<lambda>n c. 10 * n + (of_char c - 48)) 0 ds"

text \<open>The exponent part \<open>e\<close>, \<open>e+\<close> or \<open>e-\<close> followed by digits; without digits it is not read.\<close>

definition exponentPart :: "string \<Rightarrow> int" where
  "exponentPart s =
     (case s of
        [] \<Rightarrow> 0
      | c # t \<Rightarrow>
          (if c = CHR ''e'' \<or> c = CHR ''E'' then
             (case t of
                [] \<Rightarrow> 0
              | d # u \<Rightarrow>
                  (if d = CHR ''+'' then int (digitsVal (takeWhile isDigit u))
                   else if d = CHR ''-'' then - int (digitsVal (takeWhile isDigit u))
                   else int (digitsVal (takeWhile isDigit t))))
           else 0))"

definition strUnsignedDecimal :: "string \<Rightarrow> jsnum" where
  "strUnsignedDecimal s =
     (if take 8 s = ''Infinity'' then PosInf
      else
        (let ip = takeWhile isDigit s;
             r1 = dropWhile isDigit s;
             dot = (r1 \<noteq> [] \<and> hd r1 = CHR ''.'');
             fp = (if dot then takeWhile isDigit (tl r1) else []);
             r2 = (if dot then dropWhile isDigit (tl r1) else r1)
         in if ip = [] \<and> fp = [] then NaN
            else Fin ((real (digitsVal ip) + real (digitsVal fp) / 10 ^ length fp)
                      * 10 powi exponentPart r2)))"

definition strDecimal :: "string \<Rightarrow> jsnum" where
  "strDecimal s =
     (case s of
        [] \<Rightarrow> NaN
      | c # t \<Rightarrow>
          (if c = CHR ''+'' then strUnsignedDecimal t
           else if c = CHR ''-'' then js_neg (strUnsignedDecimal t)
           else strUnsignedDecimal s))"

fun parseFloat :: "jsval \<Rightarrow> jsnum" where
  "parseFloat JUndefined = NaN"
| "parseFloat (JNum x) = x"
| "parseFloat (JStr s) = strDecimal (dropWhile isWhiteSpace s)"

section \<open>The matching run\<close>

text \<open>The donor form: every field is the string value of an input or select element.\<close>

record donor_form =
  d_name :: string
  d_gender :: string
  d_age :: string
  d_height :: string
  d_weight :: string
  d_bloodType :: string

text \<open>A recipient row: the cells of one spreadsheet row, keyed by the column header.\<close>

record recipient_row =
  r_id :: jsval
  r_name :: jsval
  r_gender :: jsval
  r_age :: jsval
  r_height :: jsval
  r_weight :: jsval
  r_bloodType :: jsval

text \<open>A result: the recipient row spread into a new object, then the computed fields.\<close>

record match_result =
  row :: recipient_row
  donorPHM :: jsnum
  recipientPHM :: jsnum
  phmRatio :: jsnum
  matchCategory :: category
  riskLevel :: risk
  bloodTypeMatch :: bool
  exactBloodTypeMatch :: bool







text \<open>The callback of \<open>recipients.map\<close>; an exception leaves it at once.\<close>

definition buildResult :: "donor_form \<Rightarrow> jsnum \<Rightarrow> recipient_row \<Rightarrow> exn + match_result" where
  "buildResult d dPHM r =
     (case calculatePHM (r_gender r) (parseFloat (r_age r)) (parseFloat (r_height r))
             (parseFloat (r_weight r)) of
        Inl e \<Rightarrow> Inl e
      | Inr rPHM \<Rightarrow>
          (let ratio = calculatePHMRatio dPHM rPHM in
           case isBloodTypeCompatible (JStr (d_bloodType d)) (r_bloodType r) of
             Inl e \<Rightarrow> Inl e
           | Inr compatible \<Rightarrow>
               Inr \<lparr>row = r, donorPHM = dPHM, recipientPHM = rPHM, phmRatio = ratio,
                    matchCategory = determineMatchCategory ratio,
                    riskLevel = determineRiskLevel ratio,
                    bloodTypeMatch = compatible,
                    exactBloodTypeMatch = (JStr (d_bloodType d) = r_bloodType r)\<rparr>))"


text \<open>The comparator given to \<open>sort\<close>.\<close>

definition compareMatches :: "match_result \<Rightarrow> match_result \<Rightarrow> jsnum" where
  "compareMatches a b =
     (if bloodTypeMatch a \<noteq> bloodTypeMatch b then (if bloodTypeMatch a then Fin (- 1) else Fin 1)
      else if exactBloodTypeMatch a \<noteq> exactBloodTypeMatch b
        then (if exactBloodTypeMatch a then Fin (- 1) else Fin 1)
      else if riskLevel a \<noteq> riskLevel b
        then (if riskLevel a = Acceptable then Fin (- 1) else Fin 1)
      else js_sub (Math_abs (js_sub (phmRatio a) (Fin 1)))
                  (Math_abs (js_sub (phmRatio b) (Fin 1))))"

text \<open>
  \<open>Array.prototype.sort\<close> with a comparator. The language requires a stable sort, reads
  a \<open>NaN\<close> result of the comparator as 0, and leaves the order to the engine when the
  comparator is not consistent. The engine modelled is V8 (Node, Chrome) on an array of
  fewer than 64 elements, where its sort is: find the first run, reverse it if it is
  strictly descending, then insert each remaining element at the place a binary search
  finds. V8 merges a longer array from such runs, with the same result whenever the
  comparator is consistent.
\<close>

definition SortCompare :: "('a \<Rightarrow> 'a \<Rightarrow> jsnum) \<Rightarrow> 'a \<Rightarrow> 'a \<Rightarrow> jsnum" where
  "SortCompare comparefn x y = (let v = comparefn x y in if isNaN v then Fin 0 else v)"

text \<open>
  The loop of \<open>CountAndMakeRun\<close>: how many further elements continue the run, each
  compared with the one before it.
\<close>

fun countRun :: "('a \<Rightarrow> 'a \<Rightarrow> jsnum) \<Rightarrow> bool \<Rightarrow> 'a \<Rightarrow> 'a list \<Rightarrow> nat" where
  "countRun comparefn isDescending previousElement [] = 0"
| "countRun comparefn isDescending previousElement (currentElement # rest) =
     (if js_lt (SortCompare comparefn currentElement previousElement) (Fin 0) = isDescending
      then Suc (countRun comparefn isDescending currentElement rest)
      else 0)"

text \<open>The first run, made ascending, and the elements after it.\<close>

definition CountAndMakeRun :: "('a \<Rightarrow> 'a \<Rightarrow> jsnum) \<Rightarrow> 'a list \<Rightarrow> 'a list \<times> 'a list" where
  "CountAndMakeRun comparefn workArray =
     (case workArray of
        [] \<Rightarrow> ([], [])
      | [x] \<Rightarrow> ([x], [])
      | elementHigh # elementLow # rest \<Rightarrow>
          (let isDescending = js_lt (SortCompare comparefn elementLow elementHigh) (Fin 0);
               runLength = 2 + countRun comparefn isDescending elementLow rest;
               run = take runLength workArray
           in (if isDescending then rev run else run, drop runLength workArray)))"

text \<open>The binary search of \<open>BinaryInsertionSort\<close> for the place of the pivot.\<close>

function findInsertionPoint ::
  "('a \<Rightarrow> 'a \<Rightarrow> jsnum) \<Rightarrow> 'a \<Rightarrow> 'a list \<Rightarrow> nat \<Rightarrow> nat \<Rightarrow> nat" where
  "findInsertionPoint comparefn pivot workArray left right =
     (if left < right then
        (if js_lt (SortCompare comparefn pivot (workArray ! (left + (right - left) div 2)))
              (Fin 0)
         then findInsertionPoint comparefn pivot workArray left (left + (right - left) div 2)
         else findInsertionPoint comparefn pivot workArray
                (left + (right - left) div 2 + 1) right)
      else left)"
  by pat_completeness auto
termination
  by (relation "measure (\<lambda>(comparefn, pivot, workArray, left, right). right - left)") auto

declare findInsertionPoint.simps [simp del]

definition insertPivot :: "('a \<Rightarrow> 'a \<Rightarrow> jsnum) \<Rightarrow> 'a list \<Rightarrow> 'a \<Rightarrow> 'a list" where
  "insertPivot comparefn workArray pivot =
     (let left = findInsertionPoint comparefn pivot workArray 0 (length workArray)
      in take left workArray @ pivot # drop left workArray)"

definition BinaryInsertionSort ::
  "('a \<Rightarrow> 'a \<Rightarrow> jsnum) \<Rightarrow> 'a list \<Rightarrow> 'a list \<Rightarrow> 'a list" where
  "BinaryInsertionSort comparefn run rest = foldl (insertPivot comparefn) run rest"

definition Array_sort :: "('a \<Rightarrow> 'a \<Rightarrow> jsnum) \<Rightarrow> 'a list \<Rightarrow> 'a list" where
  "Array_sort comparefn xs =
     (case CountAndMakeRun comparefn xs of
        (run, rest) \<Rightarrow> BinaryInsertionSort comparefn run rest)"


section \<open>Reference notions of the specification\<close>

text \<open>
  The transfusion rule in the specification's words, on the literal blood types: the ABO
  group is the literal without its last character, the Rhesus sign is that character; a
  group can be given to itself, O to every group, and every group to AB.
\<close>

definition aboGroup :: "string \<Rightarrow> string" where
  "aboGroup t = butlast t"

definition rhesus :: "string \<Rightarrow> char" where
  "rhesus t = last t"

definition aboTransfusable :: "string \<Rightarrow> string \<Rightarrow> bool" where
  "aboTransfusable d r = (d = r \<or> d = ''O'' \<or> r = ''AB'')"

text \<open>
  The distance of a ratio from the ideal ratio 1, in the specification's words
  \<open>|phmRatio - 1.0|\<close>; an infinite ratio is infinitely far, and \<open>NaN\<close> has no distance.
\<close>

fun distanceFromIdeal :: "jsnum \<Rightarrow> jsnum" where
  "distanceFromIdeal (Fin r) = Fin \<bar>r - 1\<bar>"
| "distanceFromIdeal NaN = NaN"
| "distanceFromIdeal NegInf = PosInf"
| "distanceFromIdeal PosInf = PosInf"

text \<open>
  The ranking chain in the specification's words: compatible before incompatible; on a
  tie, exact before non-exact; on a further tie, Acceptable before HighRisk; on a further
  tie, the smaller distance of the ratio from 1.
\<close>

definition rankedBefore :: "match_result \<Rightarrow> match_result \<Rightarrow> bool" where
  "rankedBefore a b =
     (if bloodTypeMatch a \<noteq> bloodTypeMatch b then bloodTypeMatch a \<and> \<not> bloodTypeMatch b
      else if exactBloodTypeMatch a \<noteq> exactBloodTypeMatch b
        then exactBloodTypeMatch a \<and> \<not> exactBloodTypeMatch b
      else if riskLevel a \<noteq> riskLevel b then riskLevel a = Acceptable \<and> riskLevel b = HighRisk
      else js_lt (distanceFromIdeal (phmRatio a)) (distanceFromIdeal (phmRatio b)))"


text \<open>
  The four criteria as one key in a lexicographic order, used in the proofs to relate the
  comparator to the library's stable sort. An infinite distance comes after every finite
  one.
\<close>

fun proximityKey :: "jsnum \<Rightarrow> nat \<times> real" where
  "proximityKey (Fin d) = (0, d)"
| "proximityKey _ = (1, 0)"

definition rankKey :: "match_result \<Rightarrow> nat \<times> nat \<times> nat \<times> nat \<times> real" where
  "rankKey m =
     (if bloodTypeMatch m then 0 else 1, if exactBloodTypeMatch m then 0 else 1,
      if riskLevel m = Acceptable then 0 else 1,
      proximityKey (Math_abs (js_sub (phmRatio m) (Fin 1))))"

text \<open>A comparator that is negative exactly when a key is smaller, on a set of elements.\<close>

definition keyed :: "('a \<Rightarrow> 'a \<Rightarrow> jsnum) \<Rightarrow> ('a \<Rightarrow> 'k::linorder) \<Rightarrow> 'a set \<Rightarrow> bool" where
  "keyed comparefn key S =
     (\<forall>x\<in>S. \<forall>y\<in>S. js_lt (SortCompare comparefn x y) (Fin 0) = (key x < key y))"

section \<open>Sample data\<close>

text \<open>
  The example of the specification: a male donor of 45 years, 180 cm and 80 kg, and
  recipients of 165 cm and 65 kg.
\<close>

definition sampleDonor :: donor_form where
  "sampleDonor =
     \<lparr>d_name = ''Donor'', d_gender = ''male'', d_age = ''45'', d_height = ''180'',
      d_weight = ''80'', d_bloodType = ''O-''\<rparr>"

definition sampleRecipient :: "nat \<Rightarrow> jsval \<Rightarrow> jsval \<Rightarrow> string \<Rightarrow> recipient_row" where
  "sampleRecipient n g ag bt =
     \<lparr>r_id = JNum (Fin (real n)), r_name = JStr ''Recipient'', r_gender = g, r_age = ag,
      r_height = JNum (Fin 165), r_weight = JNum (Fin 65), r_bloodType = JStr bt\<rparr>"




definition recipientSameType :: recipient_row where
  "recipientSameType = sampleRecipient 4 (JStr ''female'') (JNum (Fin 50)) ''O-''"


text \<open>A result with a given compatibility, exact match and ratio.\<close>

definition sampleResult :: "nat \<Rightarrow> bool \<Rightarrow> bool \<Rightarrow> real \<Rightarrow> match_result" where
  "sampleResult n compatible exact ratio =
     \<lparr>row = sampleRecipient n (JStr ''female'') (JNum (Fin 50)) ''AB+'',
      donorPHM = Fin (100 * ratio), recipientPHM = Fin 100, phmRatio = Fin ratio,
      matchCategory = determineMatchCategory (Fin ratio),
      riskLevel = determineRiskLevel (Fin ratio),
      bloodTypeMatch = compatible, exactBloodTypeMatch = exact\<rparr>"

definition sampleResults :: "match_result list" where
  "sampleResults =
     [sampleResult 1 False False 1, sampleResult 2 True False 0.95,
      sampleResult 3 True True 0.9, sampleResult 4 True False 1.05,
      sampleResult 5 True False 0.5]"




section \<open>Classifier boundaries\<close>

text \<open>
  C3. On every real ratio the category is decided by the six boundaries 0.863, 0.929,
  0.983, 1.039, 1.111 and 1.221, each boundary belonging to the band above it; exactly
  one of the seven bands applies; 0.983 is in R and 0.9829999 in U1.
\<close>

theorem determineMatchCategory_bands:
  "(determineMatchCategory (Fin r) = U3) = (r < 0.863)
   \<and> (determineMatchCategory (Fin r) = U2) = (0.863 \<le> r \<and> r < 0.929)
   \<and> (determineMatchCategory (Fin r) = U1) = (0.929 \<le> r \<and> r < 0.983)
   \<and> (determineMatchCategory (Fin r) = R) = (0.983 \<le> r \<and> r < 1.039)
   \<and> (determineMatchCategory (Fin r) = O1) = (1.039 \<le> r \<and> r < 1.111)
   \<and> (determineMatchCategory (Fin r) = O2) = (1.111 \<le> r \<and> r < 1.221)
   \<and> (determineMatchCategory (Fin r) = O3) = (1.221 \<le> r)
   \<and> determineMatchCategory (Fin 0.983) = R
   \<and> determineMatchCategory (Fin 0.9829999) = U1"
  by (simp add: determineMatchCategory_def)

text \<open>
  C4. The risk level is HighRisk exactly below 0.86 and Acceptable from 0.86 on; the
  threshold is its own constant: a ratio between 0.86 and 0.863 is Acceptable and still
  in the lowest category U3.
\<close>

theorem determineRiskLevel_threshold:
  "(determineRiskLevel (Fin r) = HighRisk) = (r < 0.86)
   \<and> (determineRiskLevel (Fin r) = Acceptable) = (0.86 \<le> r)
   \<and> determineRiskLevel (Fin 0.86) = Acceptable
   \<and> determineRiskLevel (Fin 0.8599) = HighRisk
   \<and> determineRiskLevel (Fin 0.861) = Acceptable
   \<and> determineMatchCategory (Fin 0.861) = U3"
  by (simp add: determineRiskLevel_def determineMatchCategory_def)


section \<open>The formula\<close>

lemma calculatePHM_Fin:
  assumes "0 < age" "0 < height" "0 < weight"
  shows "calculatePHM (JStr gender) (Fin age) (Fin height) (Fin weight) =
     Inr (Fin ((if map toLowerChar gender = ''female'' then 10.59 else 11.25)
                 * age powr (- 0.32) * (if 3 < height then height / 100 else height) powr 1.135
                 * weight powr 0.315
               + (if map toLowerChar gender = ''female'' then 6.82 else 8.25)
                 * (if 3 < height then height / 100 else height) powr 0.54 * weight powr 0.61))"
  using assms by (simp add: calculatePHM_def Math_pow_def js_gt_def Let_def)

text \<open>
  C2. For positive age, height and weight the result is LVM + RVM with the stated
  coefficients and exponents; the female coefficients are used when the lower-cased gender
  string is \<open>female\<close>, the male ones otherwise; a height above 3 is divided by 100.
\<close>

theorem calculatePHM_formula:
  assumes "0 < age" "0 < height" "0 < weight"
  shows "calculatePHM (JStr gender) (Fin age) (Fin height) (Fin weight) =
     Inr (Fin (let height_m = (if 3 < height then height / 100 else height);
                   Clvm = (if map toLowerChar gender = ''female'' then 6.82 else 8.25);
                   Crvm = (if map toLowerChar gender = ''female'' then 10.59 else 11.25);
                   LVM = Clvm * height_m powr 0.54 * weight powr 0.61;
                   RVM = Crvm * age powr (- 0.32) * height_m powr 1.135 * weight powr 0.315
               in LVM + RVM))"
  using calculatePHM_Fin [OF assms, of gender] by (simp add: Let_def)

theorem calculatePHM_formula_witness:
  "(0::real) < 50 \<and> (0::real) < 165 \<and> (0::real) < 65
   \<and> calculatePHM (JStr ''Female'') (Fin 50) (Fin 165) (Fin 65) =
       Inr (Fin (6.82 * 1.65 powr 0.54 * 65 powr 0.61
                 + 10.59 * 50 powr (- 0.32) * 1.65 powr 1.135 * 65 powr 0.315))
   \<and> calculatePHM (JStr ''male'') (Fin 45) (Fin 1.8) (Fin 80) =
       Inr (Fin (8.25 * 1.8 powr 0.54 * 80 powr 0.61
                 + 11.25 * 45 powr (- 0.32) * 1.8 powr 1.135 * 80 powr 0.315))"
  using calculatePHM_formula [of 50 165 65 "''Female''"]
    calculatePHM_formula [of 45 "1.8" 80 "''male''"]
  by (simp add: toLowerChar_def Let_def)

text \<open>
  In the exact real arithmetic of this model the formula is strictly positive and strictly
  increasing in the weight, for positive age and height. The code computes in doubles,
  where a product can underflow to 0 and two neighbouring weights can give the same
  result, and \<open>Math.pow\<close> is only approximated by the engine: the rounded results do not
  follow from the source, and this lemma says nothing about them.
\<close>

lemma formula_positive_increasing_exact:
  assumes "0 < age" "0 < height" "0 < w1" "w1 < w2"
  shows "\<exists>p1 p2. calculatePHM (JStr gender) (Fin age) (Fin height) (Fin w1) = Inr (Fin p1)
     \<and> calculatePHM (JStr gender) (Fin age) (Fin height) (Fin w2) = Inr (Fin p2)
     \<and> 0 < p1 \<and> p1 < p2"
proof -
  define hm where "hm = (if 3 < height then height / 100 else height)"
  define cl :: real where "cl = (if map toLowerChar gender = ''female'' then 6.82 else 8.25)"
  define cr :: real where "cr = (if map toLowerChar gender = ''female'' then 10.59 else 11.25)"
  define kr where "kr = cr * age powr (- 0.32) * hm powr 1.135"
  define kl where "kl = cl * hm powr 0.54"
  have hm: "0 < hm" using assms(2) by (simp add: hm_def)
  have kr: "0 < kr" using hm assms(1) by (simp add: kr_def cr_def)
  have kl: "0 < kl" using hm by (simp add: kl_def cl_def)
  have w2: "0 < w2" using assms by simp
  have e1: "calculatePHM (JStr gender) (Fin age) (Fin height) (Fin w1)
      = Inr (Fin (kr * w1 powr 0.315 + kl * w1 powr 0.61))"
    using calculatePHM_Fin [OF assms(1) assms(2) assms(3), of gender]
    by (simp add: kr_def kl_def cr_def cl_def hm_def)
  have e2: "calculatePHM (JStr gender) (Fin age) (Fin height) (Fin w2)
      = Inr (Fin (kr * w2 powr 0.315 + kl * w2 powr 0.61))"
    using calculatePHM_Fin [OF assms(1) assms(2) w2, of gender]
    by (simp add: kr_def kl_def cr_def cl_def hm_def)
  have m1: "w1 powr 0.315 < w2 powr 0.315"
    using assms by (intro powr_less_mono2) simp_all
  have m2: "w1 powr 0.61 < w2 powr 0.61"
    using assms by (intro powr_less_mono2) simp_all
  have pos: "0 < kr * w1 powr 0.315 + kl * w1 powr 0.61"
    using kr kl assms(3) by (intro add_pos_pos mult_pos_pos) simp_all
  have lt: "kr * w1 powr 0.315 + kl * w1 powr 0.61 < kr * w2 powr 0.315 + kl * w2 powr 0.61"
    using kr kl m1 m2 by (intro add_strict_mono) simp_all
  show ?thesis using e1 e2 pos lt by blast
qed

section \<open>Invalid input to the formula\<close>

lemma js_mul_NaN [simp]: "js_mul x NaN = NaN" "js_mul NaN y = NaN"
  by (cases x; simp)+

lemma js_add_NaN [simp]: "js_add x NaN = NaN" "js_add NaN y = NaN"
  by (cases x; simp)+

lemma calculatePHM_string: "\<exists>v. calculatePHM (JStr g) a h w = Inr v"
  by (simp add: calculatePHM_def Let_def)



lemma calculatePHM_NaN:
  "a = NaN \<or> h = NaN \<or> w = NaN \<Longrightarrow> calculatePHM (JStr g) a h w = Inr NaN"
  by (auto simp add: calculatePHM_def js_gt_def Let_def Math_pow_def)





section \<open>The compatibility chart\<close>

lemma isBloodTypeCompatible_chart:
  "\<forall>d \<in> set bloodTypes. \<forall>r \<in> set bloodTypes.
     isBloodTypeCompatible (JStr d) (JStr r) =
       Inr (aboTransfusable (aboGroup d) (aboGroup r)
            \<and> (rhesus d = CHR ''-'' \<or> rhesus r = CHR ''+''))"
  by (simp add: bloodTypes_def isBloodTypeCompatible_def bloodTypeCompatibility_def
      aboTransfusable_def aboGroup_def rhesus_def)

lemma isBloodTypeCompatible_absent:
  "isBloodTypeCompatible JUndefined r = Inr False"
  "isBloodTypeCompatible d JUndefined = Inr False"
  "isBloodTypeCompatible (JStr []) r = Inr False"
  "isBloodTypeCompatible d (JStr []) = Inr False"
  by (simp_all add: isBloodTypeCompatible_def)

lemma isBloodTypeCompatible_unknown_recipient:
  "r \<notin> set bloodTypes \<Longrightarrow> r \<notin> set objectPrototypeKeys \<Longrightarrow>
     isBloodTypeCompatible d (JStr r) = Inr False"
  by (simp add: isBloodTypeCompatible_def bloodTypes_def bloodTypeCompatibility_def)

lemma isBloodTypeCompatible_unknown_donor:
  "d \<notin> set bloodTypes \<Longrightarrow> r \<in> set bloodTypes \<Longrightarrow>
     isBloodTypeCompatible (JStr d) (JStr r) = Inr False"
  by (auto simp add: isBloodTypeCompatible_def bloodTypes_def bloodTypeCompatibility_def)

text \<open>
  C5. The chart agrees with the transfusion rule on the literal types, and absent or
  unknown types give \<open>false\<close> (the lemmas above), but the lookup is not total: a recipient
  blood type that names a property of \<open>Object.prototype\<close> finds that inherited value,
  which has no \<open>includes\<close> method, and the call throws.
\<close>

theorem isBloodTypeCompatible_inherited_key_throws:
  "isBloodTypeCompatible (JStr ''A+'') (JStr ''constructor'') = Inl TypeError"
  by (simp add: isBloodTypeCompatible_def bloodTypeCompatibility_def objectPrototypeKeys_def)


section \<open>The ranking\<close>

subsection \<open>The comparator as a key order\<close>

lemma proximity_distance: "Math_abs (js_sub x (Fin 1)) = distanceFromIdeal x"
  by (cases x) (simp_all add: js_sub_def)

lemma proximity_cases:
  "x \<noteq> NaN \<Longrightarrow>
     (\<exists>d. Math_abs (js_sub x (Fin 1)) = Fin d) \<or> Math_abs (js_sub x (Fin 1)) = PosInf"
  by (cases x) (simp_all add: js_sub_def)


lemma proximity_NaN: "Math_abs (js_sub NaN (Fin 1)) = NaN"
  by (simp add: js_sub_def)

lemma risk_cases: "(r::risk) = Acceptable \<or> r = HighRisk"
  by (cases r) simp_all

lemma js_sub_negative: "js_lt (js_sub x y) (Fin 0) = js_lt x y"
  by (cases x; cases y) (auto simp add: js_sub_def)


lemma compare_negative: "js_lt (compareMatches a b) (Fin 0) = rankedBefore a b"
  using risk_cases [of "riskLevel a"] risk_cases [of "riskLevel b"]
  by (auto simp add: compareMatches_def rankedBefore_def js_sub_negative proximity_distance)


lemma rankedBefore_key:
  assumes "phmRatio a \<noteq> NaN" "phmRatio b \<noteq> NaN"
  shows "rankedBefore a b = (rankKey a < rankKey b)"
  using proximity_cases [OF assms(1)] proximity_cases [OF assms(2)]
    risk_cases [of "riskLevel a"] risk_cases [of "riskLevel b"]
  by (auto simp add: rankedBefore_def rankKey_def less_prod_def
      proximity_distance [symmetric])


lemma SortCompare_negative:
  "js_lt (SortCompare comparefn x y) (Fin 0) = js_lt (comparefn x y) (Fin 0)"
  by (simp add: SortCompare_def isNaN_def Let_def)

text \<open>
  A record whose ratio is \<open>NaN\<close> compares as \<open>NaN\<close>, read as 0, with every record it
  ties with on the first three criteria, while those records are ordered among
  themselves: with such a record the comparator is not a consistent order.
\<close>

lemma compare_NaN_ratio:
  assumes "bloodTypeMatch a = bloodTypeMatch b" "exactBloodTypeMatch a = exactBloodTypeMatch b"
    "riskLevel a = riskLevel b" "phmRatio a = NaN \<or> phmRatio b = NaN"
  shows "compareMatches a b = NaN"
proof -
  have "js_sub x y = NaN" if "x = NaN \<or> y = NaN" for x y
    using that by (cases x; cases y) (auto simp add: js_sub_def)
  then show ?thesis using assms by (auto simp add: compareMatches_def proximity_NaN)
qed

lemma compare_incompatible:
  "\<not> bloodTypeMatch a \<Longrightarrow> bloodTypeMatch b \<Longrightarrow> compareMatches a b = Fin 1"
  by (simp add: compareMatches_def)

lemma compareMatches_keyed:
  assumes "\<forall>m\<in>set xs. phmRatio m \<noteq> NaN"
  shows "keyed compareMatches rankKey (set xs)"
  using assms by (simp add: keyed_def SortCompare_negative compare_negative rankedBefore_key)

subsection \<open>The sort\<close>

lemma keyedD:
  "keyed comparefn key S \<Longrightarrow> x \<in> S \<Longrightarrow> y \<in> S \<Longrightarrow>
     js_lt (SortCompare comparefn x y) (Fin 0) = (key x < key y)"
  by (simp add: keyed_def)

lemma keyed_subset: "keyed comparefn key S \<Longrightarrow> T \<subseteq> S \<Longrightarrow> keyed comparefn key T"
  by (auto simp add: keyed_def)

text \<open>The sort rearranges its input, whatever the comparator.\<close>

lemma mset_insertPivot: "mset (insertPivot comparefn a pivot) = add_mset pivot (mset a)"
proof -
  have "mset (take n a) + mset (drop n a) = mset a" for n
    by (metis append_take_drop_id mset_append)
  then show ?thesis by (simp add: insertPivot_def Let_def)
qed

lemma mset_BinaryInsertionSort:
  "mset (BinaryInsertionSort comparefn run rest) = mset run + mset rest"
  unfolding BinaryInsertionSort_def
  by (induction rest arbitrary: run) (simp_all add: mset_insertPivot)

lemma CountAndMakeRun_short:
  "CountAndMakeRun comparefn [] = ([], [])" "CountAndMakeRun comparefn [x] = ([x], [])"
  by (simp_all add: CountAndMakeRun_def)

lemma CountAndMakeRun_long:
  "CountAndMakeRun comparefn (h # l # r) =
     (if js_lt (SortCompare comparefn l h) (Fin 0)
      then (rev (h # l # take (countRun comparefn True l r) r), drop (countRun comparefn True l r) r)
      else (h # l # take (countRun comparefn False l r) r, drop (countRun comparefn False l r) r))"
  by (simp add: CountAndMakeRun_def Let_def)

lemma mset_take_drop: "mset (take n ys) + mset (drop n ys) = mset ys"
  by (metis append_take_drop_id mset_append)

lemma CountAndMakeRun_mset:
  "mset (fst (CountAndMakeRun comparefn xs)) + mset (snd (CountAndMakeRun comparefn xs)) = mset xs"
proof (cases xs)
  case Nil
  then show ?thesis by (simp add: CountAndMakeRun_short)
next
  case (Cons h t)
  show ?thesis
  proof (cases t)
    case Nil
    then show ?thesis using Cons by (simp add: CountAndMakeRun_short)
  next
    case (Cons l r)
    show ?thesis
      using mset_take_drop [of "countRun comparefn True l r" r]
        mset_take_drop [of "countRun comparefn False l r" r]
      unfolding \<open>xs = h # t\<close> Cons CountAndMakeRun_long
      by (simp split: if_splits)
  qed
qed

lemma mset_Array_sort: "mset (Array_sort comparefn xs) = mset xs"
  using CountAndMakeRun_mset [of comparefn xs]
  by (auto simp add: Array_sort_def mset_BinaryInsertionSort split: prod.splits)

text \<open>The binary search, for a comparator that follows a key on a list sorted by it.\<close>

lemma findInsertionPoint_bounds:
  "left \<le> right \<Longrightarrow> left \<le> findInsertionPoint comparefn pivot a left right
     \<and> findInsertionPoint comparefn pivot a left right \<le> right"
proof (induction comparefn pivot a left right rule: findInsertionPoint.induct)
  case (1 comparefn pivot a left right)
  show ?case
  proof (cases "left < right")
    case False
    then show ?thesis using "1.prems" by (simp add: findInsertionPoint.simps)
  next
    case True
    let ?mid = "left + (right - left) div 2"
    have m: "left \<le> ?mid" "?mid < right" using True by auto
    show ?thesis
    proof (cases "js_lt (SortCompare comparefn pivot (a ! ?mid)) (Fin 0)")
      case lt: True
      have "left \<le> findInsertionPoint comparefn pivot a left ?mid
          \<and> findInsertionPoint comparefn pivot a left ?mid \<le> ?mid"
        using "1.IH"(1) [OF True lt] m by simp
      then show ?thesis
        using True lt m by (subst (1 2) findInsertionPoint.simps) simp
    next
      case ge: False
      have "?mid + 1 \<le> findInsertionPoint comparefn pivot a (?mid + 1) right
          \<and> findInsertionPoint comparefn pivot a (?mid + 1) right \<le> right"
        using "1.IH"(2) [OF True ge] m by simp
      then show ?thesis
        using True ge m by (subst (1 2) findInsertionPoint.simps) simp
    qed
  qed
qed

lemma findInsertionPoint_splits:
  assumes "sorted (map key a)" "keyed comparefn key (insert pivot (set a))"
    "left \<le> right" "right \<le> length a"
    "\<forall>j<left. key (a ! j) \<le> key pivot"
    "\<forall>j. right \<le> j \<and> j < length a \<longrightarrow> key pivot < key (a ! j)"
  shows "(\<forall>j<findInsertionPoint comparefn pivot a left right. key (a ! j) \<le> key pivot)
     \<and> (\<forall>j. findInsertionPoint comparefn pivot a left right \<le> j \<and> j < length a
            \<longrightarrow> key pivot < key (a ! j))"
  using assms
proof (induction comparefn pivot a left right rule: findInsertionPoint.induct)
  case (1 comparefn pivot a left right)
  show ?case
  proof (cases "left < right")
    case False
    then have "findInsertionPoint comparefn pivot a left right = left"
      by (simp add: findInsertionPoint.simps)
    then show ?thesis using "1.prems" False by auto
  next
    case True
    let ?mid = "left + (right - left) div 2"
    have m: "left \<le> ?mid" "?mid < right" "?mid < length a" using True "1.prems"(4) by auto
    have mem: "a ! ?mid \<in> set a" using m(3) by simp
    have cmp: "js_lt (SortCompare comparefn pivot (a ! ?mid)) (Fin 0) = (key pivot < key (a ! ?mid))"
      using keyedD [OF "1.prems"(2), of pivot "a ! ?mid"] mem by simp
    have mono: "key (a ! i) \<le> key (a ! j)" if "i \<le> j" "j < length a" for i j
      using sorted_nth_mono [OF "1.prems"(1), of i j] that by simp
    show ?thesis
    proof (cases "js_lt (SortCompare comparefn pivot (a ! ?mid)) (Fin 0)")
      case lt: True
      have above: "\<forall>j. ?mid \<le> j \<and> j < length a \<longrightarrow> key pivot < key (a ! j)"
      proof (intro allI impI)
        fix j assume "?mid \<le> j \<and> j < length a"
        then have "key (a ! ?mid) \<le> key (a ! j)" using mono by blast
        then show "key pivot < key (a ! j)" using lt cmp by simp
      qed
      have eq: "findInsertionPoint comparefn pivot a left right
          = findInsertionPoint comparefn pivot a left ?mid"
        using True lt by (subst findInsertionPoint.simps) simp
      show ?thesis
        unfolding eq
        using "1.IH"(1) [OF True lt "1.prems"(1) "1.prems"(2) _ _ "1.prems"(5) above] m
        by simp
    next
      case ge: False
      have below: "\<forall>j<?mid + 1. key (a ! j) \<le> key pivot"
      proof (intro allI impI)
        fix j assume "j < ?mid + 1"
        then have "key (a ! j) \<le> key (a ! ?mid)" using mono [of j ?mid] m(3) by simp
        then show "key (a ! j) \<le> key pivot" using ge cmp by simp
      qed
      have eq: "findInsertionPoint comparefn pivot a left right
          = findInsertionPoint comparefn pivot a (?mid + 1) right"
        using True ge by (subst findInsertionPoint.simps) simp
      show ?thesis
        unfolding eq
        using "1.IH"(2) [OF True ge "1.prems"(1) "1.prems"(2) _ "1.prems"(4) below "1.prems"(6)] m
        by simp
    qed
  qed
qed


text \<open>Inserting the pivot keeps the list sorted and puts it after its equals.\<close>

lemma insertPivot_sorted_stable:
  assumes "sorted (map key a)" "keyed comparefn key (insert pivot (set a))"
  shows "sorted (map key (insertPivot comparefn a pivot))"
    and "filter (\<lambda>x. key x = k) (insertPivot comparefn a pivot)
         = filter (\<lambda>x. key x = k) (a @ [pivot])"
proof -
  define i where "i = findInsertionPoint comparefn pivot a 0 (length a)"
  have form: "insertPivot comparefn a pivot = take i a @ pivot # drop i a"
    by (simp add: insertPivot_def i_def Let_def)
  have split: "(\<forall>j<i. key (a ! j) \<le> key pivot)
      \<and> (\<forall>j. i \<le> j \<and> j < length a \<longrightarrow> key pivot < key (a ! j))"
  proof -
    have lo: "\<forall>j<0. key (a ! j) \<le> key pivot" by simp
    have hi: "\<forall>j. length a \<le> j \<and> j < length a \<longrightarrow> key pivot < key (a ! j)" by auto
    show ?thesis
      unfolding i_def
      using findInsertionPoint_splits [OF assms(1) assms(2) _ _ lo hi] by simp
  qed
  have le: "i \<le> length a"
    unfolding i_def using findInsertionPoint_bounds [of 0 "length a" comparefn pivot a] by simp
  have before: "\<forall>x\<in>set (take i a). key x \<le> key pivot"
  proof
    fix x assume "x \<in> set (take i a)"
    then obtain j where "j < length (take i a)" "take i a ! j = x"
      by (auto simp add: in_set_conv_nth)
    then show "key x \<le> key pivot" using split le by auto
  qed
  have after: "\<forall>x\<in>set (drop i a). key pivot < key x"
  proof
    fix x assume "x \<in> set (drop i a)"
    then obtain j where j: "j < length (drop i a)" "drop i a ! j = x"
      by (auto simp add: in_set_conv_nth)
    then have "i + j < length a" "a ! (i + j) = x" using le by auto
    then show "key pivot < key x" using split by (metis le_add1)
  qed
  have st: "sorted (map key (take i a))" "sorted (map key (drop i a))"
    using assms(1) by (simp_all add: sorted_wrt_take sorted_wrt_drop sorted_map)
  have cross: "\<forall>x\<in>set (take i a). \<forall>y\<in>set (drop i a). key x \<le> key y"
    using before after by force
  show "sorted (map key (insertPivot comparefn a pivot))"
    unfolding form using st before after cross
    by (auto simp add: sorted_append less_imp_le)
  have none: "filter (\<lambda>x. key x = key pivot) (drop i a) = []"
    using after by (auto simp add: filter_empty_conv)
  have ida: "a = take i a @ drop i a" by simp
  show "filter (\<lambda>x. key x = k) (insertPivot comparefn a pivot)
         = filter (\<lambda>x. key x = k) (a @ [pivot])"
  proof (cases "key pivot = k")
    case True
    have "filter (\<lambda>x. key x = k) a = filter (\<lambda>x. key x = k) (take i a)"
      using none True by (subst ida) (simp del: append_take_drop_id)
    then show ?thesis unfolding form using none True by simp
  next
    case False
    have "filter (\<lambda>x. key x = k) a
        = filter (\<lambda>x. key x = k) (take i a) @ filter (\<lambda>x. key x = k) (drop i a)"
      by (subst ida) (simp del: append_take_drop_id)
    then show ?thesis unfolding form using False by simp
  qed
qed

lemma set_insertPivot: "set (insertPivot comparefn a pivot) = insert pivot (set a)"
  using mset_insertPivot [of comparefn a pivot] by (metis set_mset_add_mset_insert set_mset_mset)

lemma BinaryInsertionSort_sorted_stable:
  assumes "sorted (map key run)" "keyed comparefn key (set run \<union> set rest)"
  shows "sorted (map key (BinaryInsertionSort comparefn run rest))
     \<and> filter (\<lambda>x. key x = k) (BinaryInsertionSort comparefn run rest)
         = filter (\<lambda>x. key x = k) (run @ rest)"
  using assms unfolding BinaryInsertionSort_def
proof (induction rest arbitrary: run)
  case Nil
  then show ?case by simp
next
  case (Cons p rest)
  have kp: "keyed comparefn key (insert p (set run))"
    using keyed_subset [OF Cons.prems(2)] by auto
  have s: "sorted (map key (insertPivot comparefn run p))"
    and f: "filter (\<lambda>x. key x = k) (insertPivot comparefn run p)
         = filter (\<lambda>x. key x = k) (run @ [p])"
    using insertPivot_sorted_stable [OF Cons.prems(1) kp] by auto
  have kr: "keyed comparefn key (set (insertPivot comparefn run p) \<union> set rest)"
    using keyed_subset [OF Cons.prems(2)] by (auto simp add: set_insertPivot)
  show ?case using Cons.IH [OF s kr] f by simp
qed

text \<open>The first run: ascending as found, or strictly descending and reversed.\<close>

lemma countRun_ascending:
  assumes "keyed comparefn key (insert prev (set rest))"
  shows "sorted (map key (prev # take (countRun comparefn False prev rest) rest))"
  using assms
proof (induction rest arbitrary: prev)
  case Nil
  then show ?case by simp
next
  case (Cons c rest)
  show ?case
  proof (cases "js_lt (SortCompare comparefn c prev) (Fin 0)")
    case True
    then show ?thesis by simp
  next
    case False
    have "\<not> key c < key prev"
      using keyedD [OF Cons.prems, of c prev] False by simp
    then have le: "key prev \<le> key c" by simp
    have k: "keyed comparefn key (insert c (set rest))"
      using keyed_subset [OF Cons.prems] by auto
    have "sorted (map key (c # take (countRun comparefn False c rest) rest))"
      using Cons.IH [OF k] .
    then show ?thesis using False le by auto
  qed
qed

lemma countRun_descending:
  assumes "keyed comparefn key (insert prev (set rest))"
  shows "sorted_wrt (\<lambda>x y. key y < key x) (prev # take (countRun comparefn True prev rest) rest)"
  using assms
proof (induction rest arbitrary: prev)
  case Nil
  then show ?case by simp
next
  case (Cons c rest)
  show ?case
  proof (cases "js_lt (SortCompare comparefn c prev) (Fin 0)")
    case False
    then show ?thesis by simp
  next
    case True
    have lt: "key c < key prev"
      using keyedD [OF Cons.prems, of c prev] True by simp
    have k: "keyed comparefn key (insert c (set rest))"
      using keyed_subset [OF Cons.prems] by auto
    have "sorted_wrt (\<lambda>x y. key y < key x) (c # take (countRun comparefn True c rest) rest)"
      using Cons.IH [OF k] .
    then show ?thesis using True lt by auto
  qed
qed

lemma filter_rev_distinct_keys:
  fixes key :: "'a \<Rightarrow> 'k::linorder"
  assumes "sorted_wrt (\<lambda>x y. key y < key x) l"
  shows "filter (\<lambda>x. key x = k) (rev l) = filter (\<lambda>x. key x = k) l"
proof -
  have "length (filter (\<lambda>x. key x = k) l) \<le> 1"
    using assms
  proof (induction l)
    case Nil
    then show ?case by simp
  next
    case (Cons x l)
    then show ?case by (auto simp add: filter_empty_conv)
  qed
  then have "rev (filter (\<lambda>x. key x = k) l) = filter (\<lambda>x. key x = k) l"
    by (cases "filter (\<lambda>x. key x = k) l") (auto simp add: le_Suc_eq)
  then show ?thesis by (simp add: rev_filter)
qed

lemma CountAndMakeRun_sorted_stable:
  assumes "keyed comparefn key (set xs)" "CountAndMakeRun comparefn xs = (run, rest)"
  shows "sorted (map key run)
     \<and> filter (\<lambda>x. key x = k) (run @ rest) = filter (\<lambda>x. key x = k) xs"
proof (cases xs)
  case Nil
  then show ?thesis using assms(2) by (simp add: CountAndMakeRun_short)
next
  case (Cons h t)
  show ?thesis
  proof (cases t)
    case Nil
    then show ?thesis using assms(2) Cons by (auto simp add: CountAndMakeRun_short)
  next
    case (Cons l r)
    have xs: "xs = h # l # r" using \<open>xs = h # t\<close> Cons by simp
    have kl: "keyed comparefn key (insert l (set r))"
      using keyed_subset [OF assms(1)] xs by auto
    have cmp: "js_lt (SortCompare comparefn l h) (Fin 0) = (key l < key h)"
      using keyedD [OF assms(1), of l h] xs by simp
    show ?thesis
    proof (cases "js_lt (SortCompare comparefn l h) (Fin 0)")
      case True
      let ?n = "countRun comparefn True l r"
      have rr: "run = rev (h # l # take ?n r)" "rest = drop ?n r"
        using assms(2) True unfolding xs CountAndMakeRun_long by simp_all
      have d: "sorted_wrt (\<lambda>x y. key y < key x) (h # l # take ?n r)"
        using countRun_descending [OF kl] True cmp by auto
      have "sorted_wrt (\<lambda>x y. key x < key y) (rev (h # l # take ?n r))"
        using d by (simp only: sorted_wrt_rev)
      then have "sorted_wrt (\<lambda>x y. key x \<le> key y) (rev (h # l # take ?n r))"
        by (rule sorted_wrt_mono_rel [rotated]) simp
      then have s: "sorted (map key run)" unfolding rr by (simp only: sorted_map)
      have e1: "filter (\<lambda>x. key x = k) run = filter (\<lambda>x. key x = k) (h # l # take ?n r)"
        unfolding rr using filter_rev_distinct_keys [OF d] .
      have e2: "(h # l # take ?n r) @ drop ?n r = xs" using xs by simp
      have "filter (\<lambda>x. key x = k) (run @ rest)
          = filter (\<lambda>x. key x = k) ((h # l # take ?n r) @ drop ?n r)"
        unfolding rr(2) filter_append e1 ..
      then have "filter (\<lambda>x. key x = k) (run @ rest) = filter (\<lambda>x. key x = k) xs"
        unfolding e2 .
      then show ?thesis using s by blast
    next
      case False
      let ?n = "countRun comparefn False l r"
      have rr: "run = h # l # take ?n r" "rest = drop ?n r"
        using assms(2) False unfolding xs CountAndMakeRun_long by simp_all
      have "sorted (map key (l # take ?n r))" using countRun_ascending [OF kl] .
      then have s: "sorted (map key run)" unfolding rr using False cmp by auto
      show ?thesis using s xs unfolding rr by simp
    qed
  qed
qed

text \<open>With a comparator that follows a key, the sort is the stable sort by that key.\<close>

lemma Array_sort_sorted_stable:
  assumes "keyed comparefn key (set xs)"
  shows "sorted (map key (Array_sort comparefn xs))"
    and "filter (\<lambda>x. key x = k) (Array_sort comparefn xs) = filter (\<lambda>x. key x = k) xs"
proof -
  obtain run rest where r: "CountAndMakeRun comparefn xs = (run, rest)"
    by (cases "CountAndMakeRun comparefn xs")
  have m: "mset run + mset rest = mset xs"
    using CountAndMakeRun_mset [of comparefn xs] r by simp
  then have "set run \<union> set rest = set xs"
    by (metis set_mset_mset set_mset_union)
  then have k: "keyed comparefn key (set run \<union> set rest)" using assms by simp
  have c: "sorted (map key run)"
    "filter (\<lambda>x. key x = k) (run @ rest) = filter (\<lambda>x. key x = k) xs"
    using CountAndMakeRun_sorted_stable [OF assms r] by auto
  have b: "sorted (map key (BinaryInsertionSort comparefn run rest))"
    "filter (\<lambda>x. key x = k) (BinaryInsertionSort comparefn run rest)
         = filter (\<lambda>x. key x = k) (run @ rest)"
    using BinaryInsertionSort_sorted_stable [OF c(1) k] by auto
  show "sorted (map key (Array_sort comparefn xs))" using b(1) by (simp add: Array_sort_def r)
  show "filter (\<lambda>x. key x = k) (Array_sort comparefn xs) = filter (\<lambda>x. key x = k) xs"
    using b(2) c(2) by (simp add: Array_sort_def r)
qed

lemma Array_sort_is_stable_sort:
  assumes "keyed comparefn key (set xs)"
  shows "Array_sort comparefn xs = sort_key key xs"
proof (rule properties_for_sort_key [symmetric])
  show "mset (Array_sort comparefn xs) = mset xs" by (rule mset_Array_sort)
  show "sorted (map key (Array_sort comparefn xs))"
    by (rule Array_sort_sorted_stable(1) [OF assms])
  fix k assume "k \<in> set (Array_sort comparefn xs)"
  have "(\<lambda>x. key k = key x) = (\<lambda>x. key x = key k)" by auto
  then show "filter (\<lambda>x. key k = key x) (Array_sort comparefn xs) = filter (\<lambda>x. key k = key x) xs"
    using Array_sort_sorted_stable(2) [OF assms, of "key k"] by simp
qed


lemma length_Array_sort: "length (Array_sort comparefn xs) = length xs"
  using mset_Array_sort [of comparefn xs] by (metis size_mset)

subsection \<open>The ranker\<close>

lemma Array_sort_sort_key:
  assumes "\<forall>m\<in>set xs. phmRatio m \<noteq> NaN"
  shows "Array_sort compareMatches xs = sort_key rankKey xs"
  using Array_sort_is_stable_sort [OF compareMatches_keyed [OF assms]] .

lemma Array_sort_keys_sorted:
  assumes "\<forall>m\<in>set xs. phmRatio m \<noteq> NaN"
  shows "sorted (map rankKey (Array_sort compareMatches xs))"
  by (simp add: Array_sort_sort_key [OF assms])

lemma Array_sort_nth_keys:
  assumes "\<forall>m\<in>set xs. phmRatio m \<noteq> NaN" "i \<le> j" "j < length xs"
  shows "rankKey (Array_sort compareMatches xs ! i) \<le> rankKey (Array_sort compareMatches xs ! j)"
proof -
  let ?out = "Array_sort compareMatches xs"
  have len: "j < length (map rankKey ?out)" using assms(3) by (simp add: length_Array_sort)
  have "map rankKey ?out ! i \<le> map rankKey ?out ! j"
    using sorted_nth_mono [OF Array_sort_keys_sorted [OF assms(1)] assms(2) len] .
  then show ?thesis using assms(2) assms(3) by (simp add: length_Array_sort)
qed

lemma compatible_first:
  assumes "\<forall>m\<in>set xs. phmRatio m \<noteq> NaN" "i < j" "j < length xs"
    "bloodTypeMatch (Array_sort compareMatches xs ! j)"
  shows "bloodTypeMatch (Array_sort compareMatches xs ! i)"
proof -
  have "rankKey (Array_sort compareMatches xs ! i) \<le> rankKey (Array_sort compareMatches xs ! j)"
    using Array_sort_nth_keys [OF assms(1), of i j] assms(2) assms(3) by simp
  then show ?thesis using assms(4)
    by (auto simp add: rankKey_def less_eq_prod_def split: if_splits)
qed

lemmas sort_steps = Array_sort_def CountAndMakeRun_def BinaryInsertionSort_def insertPivot_def
  findInsertionPoint.simps SortCompare_def isNaN_def Let_def

lemma sampleResults_numbers: "\<forall>m\<in>set sampleResults. phmRatio m \<noteq> NaN"
  by (simp add: sampleResults_def sampleResult_def)

lemma sampleResults_ranked:
  "Array_sort compareMatches sampleResults =
     [sampleResult 3 True True 0.9, sampleResult 2 True False 0.95,
      sampleResult 4 True False 1.05, sampleResult 5 True False 0.5,
      sampleResult 1 False False 1]"
  by (simp add: sampleResults_def sampleResult_def compareMatches_def js_sub_def
      determineRiskLevel_def sort_steps)










section \<open>Exact match and compatibility\<close>

lemma isBloodTypeCompatible_refl:
  "\<forall>t\<in>set bloodTypes. isBloodTypeCompatible (JStr t) (JStr t) = Inr True"
  by (simp add: bloodTypes_def isBloodTypeCompatible_def bloodTypeCompatibility_def)

lemma buildResult_fields:
  assumes "buildResult d p r = Inr m"
  shows "row m = r" "donorPHM m = p"
    "isBloodTypeCompatible (JStr (d_bloodType d)) (r_bloodType r) = Inr (bloodTypeMatch m)"
    "exactBloodTypeMatch m = (JStr (d_bloodType d) = r_bloodType r)"
  using assms by (auto simp add: buildResult_def Let_def split: sum.splits)

lemma buildResult_exact_compatible:
  assumes "d_bloodType d \<in> set bloodTypes" "buildResult d p r = Inr m" "exactBloodTypeMatch m"
  shows "bloodTypeMatch m"
proof -
  have "r_bloodType r = JStr (d_bloodType d)"
    using buildResult_fields(4) [OF assms(2)] assms(3) by simp
  then have "isBloodTypeCompatible (JStr (d_bloodType d)) (JStr (d_bloodType d))
      = Inr (bloodTypeMatch m)"
    using buildResult_fields(3) [OF assms(2)] by simp
  then show ?thesis using isBloodTypeCompatible_refl assms(1) by simp
qed

lemma isBloodTypeCompatible_total:
  "bt \<notin> JStr ` set objectPrototypeKeys \<Longrightarrow> \<exists>c. isBloodTypeCompatible d bt = Inr c"
  by (cases bt) (auto simp add: isBloodTypeCompatible_def split: option.splits)

lemma buildResult_total:
  assumes "r_gender r = JStr g" "r_bloodType r \<notin> JStr ` set objectPrototypeKeys"
  shows "\<exists>m. buildResult d p r = Inr m"
proof -
  obtain v where v: "calculatePHM (r_gender r) (parseFloat (r_age r)) (parseFloat (r_height r))
       (parseFloat (r_weight r)) = Inr v"
    using calculatePHM_string assms(1) by metis
  obtain c where c: "isBloodTypeCompatible (JStr (d_bloodType d)) (r_bloodType r) = Inr c"
    using isBloodTypeCompatible_total [OF assms(2)] by blast
  show ?thesis by (simp add: buildResult_def v c Let_def)
qed

text \<open>
  C10. Every literal blood type is compatible with itself; so a result built for a donor
  with a literal blood type that is an exact match is also compatible. The comparator
  puts an incompatible record after a compatible one whatever their exact-match flags,
  and in the sorted list (of records whose ratio is a number) no incompatible record
  stands before a compatible one.
\<close>

theorem exact_match_is_compatible:
  "(\<forall>t\<in>set bloodTypes. isBloodTypeCompatible (JStr t) (JStr t) = Inr True)
   \<and> (d_bloodType d \<in> set bloodTypes \<and> buildResult d p r = Inr m \<and> exactBloodTypeMatch m
        \<longrightarrow> bloodTypeMatch m)
   \<and> (\<not> bloodTypeMatch a \<and> bloodTypeMatch b \<longrightarrow> compareMatches a b = Fin 1)
   \<and> ((\<forall>m\<in>set xs. phmRatio m \<noteq> NaN) \<longrightarrow>
        (\<forall>i j. i < j \<and> j < length xs \<and> bloodTypeMatch (Array_sort compareMatches xs ! j)
           \<longrightarrow> bloodTypeMatch (Array_sort compareMatches xs ! i)))"
  using isBloodTypeCompatible_refl buildResult_exact_compatible [of d p r m]
    compare_incompatible [of a b] compatible_first [of xs]
  by blast

theorem exact_match_is_compatible_witness:
  "''O-'' \<in> set bloodTypes
   \<and> isBloodTypeCompatible (JStr ''O-'') (JStr ''O-'') = Inr True
   \<and> (\<exists>m. buildResult sampleDonor (Fin 1) recipientSameType = Inr m
         \<and> exactBloodTypeMatch m \<and> bloodTypeMatch m)
   \<and> compareMatches (sampleResult 1 False False 1) (sampleResult 2 True False 0.95) = Fin 1
   \<and> NaN \<notin> set (map phmRatio sampleResults)
   \<and> bloodTypeMatch (Array_sort compareMatches sampleResults ! 1)
   \<and> bloodTypeMatch (Array_sort compareMatches sampleResults ! 0)"
proof -
  have o: "''O-'' \<in> set bloodTypes" by (simp add: bloodTypes_def)
  have dt: "d_bloodType sampleDonor = ''O-''" by (simp add: sampleDonor_def)
  have rt: "r_bloodType recipientSameType = JStr ''O-''"
    and rg: "r_gender recipientSameType = JStr ''female''"
    by (simp_all add: recipientSameType_def sampleRecipient_def)
  have "r_bloodType recipientSameType \<notin> JStr ` set objectPrototypeKeys"
    by (simp add: rt objectPrototypeKeys_def image_iff)
  then obtain m where m: "buildResult sampleDonor (Fin 1) recipientSameType = Inr m"
    using buildResult_total [OF rg] by blast
  have ex: "exactBloodTypeMatch m" using buildResult_fields(4) [OF m] dt rt by simp
  note t = exact_match_is_compatible
    [of sampleDonor "Fin 1" recipientSameType m "sampleResult 1 False False 1"
      "sampleResult 2 True False 0.95" sampleResults]
  have refl: "isBloodTypeCompatible (JStr ''O-'') (JStr ''O-'') = Inr True"
    using t o by blast
  have co: "bloodTypeMatch m" using t o dt m ex by simp
  have cmp: "compareMatches (sampleResult 1 False False 1) (sampleResult 2 True False 0.95)
      = Fin 1"
    using t by (simp add: sampleResult_def)
  have n: "NaN \<notin> set (map phmRatio sampleResults)" using sampleResults_numbers by auto
  have one: "bloodTypeMatch (Array_sort compareMatches sampleResults ! 1)"
    by (simp add: sampleResults_ranked sampleResult_def)
  have len: "(1::nat) < length sampleResults" by (simp add: sampleResults_def)
  have srt: "\<forall>i j. i < j \<and> j < length sampleResults
        \<and> bloodTypeMatch (Array_sort compareMatches sampleResults ! j)
        \<longrightarrow> bloodTypeMatch (Array_sort compareMatches sampleResults ! i)"
    using t sampleResults_numbers by blast
  have zero: "bloodTypeMatch (Array_sort compareMatches sampleResults ! 0)"
    using srt len one by (metis zero_less_one)
  show ?thesis using o refl m ex co cmp n one zero by blast
qed

section \<open>A whole run\<close>














end
